theory Spec2Isabelle
  imports Main
begin

section \<open>The thread pool of cpp-tp.hpp\<close>

text \<open>
  The class \<open>ThreadPool\<close> keeps a queue of jobs, a counter of pending jobs, two flags and a
  vector of worker threads. Every member function but \<open>isStopped\<close> touches these fields only
  while it holds \<open>m_management_mutex\<close>, so each critical section is one atomic step on
  the fields, and a run of the program is an interleaving of such steps. The model below has
  one function per critical section, named after the member function it belongs to, and a
  function \<open>step\<close> that dispatches on the thread that moves.

  A job is an opaque callable: the pool never looks inside it. It is identified by a number.
\<close>

type_synonym job = nat

subsection \<open>Threads and condition variables\<close>

text \<open>
  A worker thread runs \<open>workerLoop\<close> and is at one of four places:
  \<^item> \<open>LoopTop\<close>: about to lock the mutex and evaluate the predicate of
    \<open>m_management_cv.wait\<close> (a thread just created, one that has just finished a job, or one
    that was woken);
  \<^item> \<open>Blocked\<close>: asleep inside \<open>m_management_cv.wait\<close>, the mutex released;
  \<^item> \<open>Running j\<close>: it has dequeued job \<open>j\<close> and is executing \<open>(*job)()\<close>, the mutex released;
  \<^item> \<open>Exited\<close>: it has left the loop through \<open>break\<close>; \<open>join\<close> on it returns.
\<close>

datatype worker = LoopTop | Blocked | Running job | Exited

text \<open>
  A thread that called \<open>wait()\<close> and found pending jobs is asleep inside
  \<open>m_counter_cv.wait\<close> (\<open>WBlocked\<close>), or was woken and has yet to lock the mutex and
  evaluate the predicate again (\<open>WWoken\<close>), or has returned from \<open>wait()\<close> (\<open>WReturned\<close>).
\<close>

datatype waiter = WBlocked | WWoken | WReturned

text \<open>
  A condition variable is the collection of threads asleep on it. \<open>notify_one\<close> wakes one
  of them if there is any; which one is not specified, so the choice \<open>k\<close> of the scheduler
  is an argument. \<open>notify_all\<close> wakes all of them. Both are written once for workers and
  waiters: \<open>b\<close> is the status of a sleeping thread and \<open>r\<close> the status of a woken one.
\<close>

definition blocked_ids :: "'a \<Rightarrow> 'a list \<Rightarrow> nat list" where
  "blocked_ids b ts = filter (\<lambda>i. ts ! i = b) [0..<length ts]"

definition notify_one :: "'a \<Rightarrow> 'a \<Rightarrow> nat \<Rightarrow> 'a list \<Rightarrow> 'a list" where
  "notify_one b r k ts =
     (case blocked_ids b ts of
        [] \<Rightarrow> ts
      | i # is \<Rightarrow> ts[(i # is) ! (k mod length (i # is)) := r])"

definition notify_all :: "'a \<Rightarrow> 'a \<Rightarrow> 'a list \<Rightarrow> 'a list" where
  "notify_all b r ts = map (\<lambda>t. if t = b then r else t) ts"

subsection \<open>The fields of the class\<close>

text \<open>
  \<open>m_pending_jobs\<close> is an \<open>ssize_t\<close>. It changes by one per call of \<open>addJob\<close> and per
  finished job, and by the size of the queue in \<open>clearQueue\<close>; it is modelled as an
  unbounded integer, and the conversions to \<open>size_t\<close> of the observers are written out.
  \<open>m_management_cv\<close> is the set of workers whose status is \<open>Blocked\<close>. \<open>m_counter_cv\<close>
  lists the threads that went to sleep in \<open>wait()\<close>, in the order of their calls.
  \<open>joining\<close> is not a field of the class: it records that a caller of \<open>stop()\<close> has left
  the critical section and is in the loop that joins the worker threads.
\<close>

record ThreadPool =
  m_stopped :: bool
  m_waiting :: bool
  m_job_queue :: "job list"
  m_worker_threads :: "worker list"
  m_pending_jobs :: int
  m_counter_cv :: "waiter list"
  joining :: bool

text \<open>The conversion of an \<open>ssize_t\<close> to \<open>size_t\<close> (64 bits).\<close>

definition to_size_t :: "int \<Rightarrow> nat" where
  "to_size_t x = nat (x mod 2 ^ 64)"

subsection \<open>Member functions\<close>

text \<open>The member initialisers of the constructor.\<close>

definition initial :: ThreadPool where
  "initial = \<lparr> m_stopped = True, m_waiting = False, m_job_queue = [],
               m_worker_threads = [], m_pending_jobs = 0, m_counter_cv = [],
               joining = False \<rparr>"

text \<open>
  The loop of \<open>start\<close> that creates the threads: the source's \<open>id\<close> (here \<open>idx\<close>) counts
  from 0 up to \<open>worker_count\<close>, and each round appends one thread that begins \<open>workerLoop\<close>.
\<close>

function spawn :: "nat \<Rightarrow> nat \<Rightarrow> worker list \<Rightarrow> worker list" where
  "spawn idx worker_count ws =
     (if idx < worker_count then spawn (Suc idx) worker_count (ws @ [LoopTop]) else ws)"
  by pat_completeness auto
termination
  by (relation "measure (\<lambda>(idx, worker_count, ws). worker_count - idx)") auto

declare spawn.simps [simp del]

text \<open>
  \<open>start(worker_count)\<close>. \<open>hw\<close> is the value of \<open>std::thread::hardware_concurrency()\<close>.
  The result is the value returned and the new state.
\<close>

definition start :: "nat \<Rightarrow> nat \<Rightarrow> ThreadPool \<Rightarrow> bool \<times> ThreadPool" where
  "start hw worker_count s =
     (if \<not> m_stopped s then (False, s)
      else
        let worker_count' = (if worker_count = 0 then hw else worker_count)
        in (True, s\<lparr> m_stopped := False,
                     m_worker_threads := spawn 0 worker_count' (m_worker_threads s) \<rparr>))"

definition ThreadPool_ctor :: "nat \<Rightarrow> bool \<Rightarrow> nat \<Rightarrow> ThreadPool" where
  "ThreadPool_ctor hw auto_start worker_count =
     (if auto_start then snd (start hw worker_count initial) else initial)"

text \<open>\<open>addJob(work_func)\<close>; \<open>k\<close> is the scheduler's choice in \<open>notify_one\<close>.\<close>

definition addJob :: "nat \<Rightarrow> job \<Rightarrow> ThreadPool \<Rightarrow> ThreadPool" where
  "addJob k work_func s =
     s\<lparr> m_pending_jobs := m_pending_jobs s + 1,
        m_job_queue := m_job_queue s @ [work_func],
        m_worker_threads := notify_one Blocked LoopTop k (m_worker_threads s) \<rparr>"

text \<open>
  \<open>stop(clear_queue)\<close> has two parts. \<open>stop_locked\<close> is the critical section: it returns
  \<open>False\<close> when \<open>stop\<close> returns \<open>false\<close> at once, and \<open>True\<close> when the caller goes on to
  the loop of joins. \<open>stop_join\<close> is that loop, the clearing of the vector and the
  \<open>return true\<close>: a \<open>join()\<close> returns only when its thread has ended, so the loop
  comes to its end (\<open>Some\<close>) only in a state where every worker has exited, and the caller
  is blocked (\<open>None\<close>) in any other state.
\<close>

definition stop_locked :: "bool \<Rightarrow> ThreadPool \<Rightarrow> bool \<times> ThreadPool" where
  "stop_locked clear_queue s =
     (if m_stopped s then (False, s)
      else (True, s\<lparr> m_stopped := True,
                     m_job_queue := (if clear_queue then [] else m_job_queue s),
                     m_worker_threads := notify_all Blocked LoopTop (m_worker_threads s),
                     joining := True \<rparr>))"

fun join_all :: "worker list \<Rightarrow> bool" where
  "join_all [] = True"
| "join_all (thread # threads) = (thread = Exited \<and> join_all threads)"

definition stop_join :: "ThreadPool \<Rightarrow> ThreadPool option" where
  "stop_join s =
     (if join_all (m_worker_threads s)
      then Some (s\<lparr> m_worker_threads := [], joining := False \<rparr>)
      else None)"




text \<open>The observers.\<close>

definition isStopped :: "ThreadPool \<Rightarrow> bool" where
  "isStopped s = m_stopped s"

definition pendingJobs :: "ThreadPool \<Rightarrow> nat" where
  "pendingJobs s = to_size_t (m_pending_jobs s)"

definition queuedJobs :: "ThreadPool \<Rightarrow> nat" where
  "queuedJobs s = length (m_job_queue s)"

definition runningJobs :: "ThreadPool \<Rightarrow> nat" where
  "runningJobs s = to_size_t (m_pending_jobs s - int (length (m_job_queue s)))"

text \<open>
  \<open>wait()\<close>. \<open>wait_enter\<close> is the call up to the point where it returns at once
  (\<open>True\<close>) or goes to sleep on \<open>m_counter_cv\<close> (\<open>False\<close>; the caller is then the last
  entry of \<open>m_counter_cv\<close>). \<open>wait_resume t\<close> is what the woken caller \<open>t\<close> does: with the
  mutex locked again it evaluates the predicate, and returns (\<open>True\<close>) or sleeps again.
\<close>

definition wait_enter :: "ThreadPool \<Rightarrow> bool \<times> ThreadPool" where
  "wait_enter s =
     (if m_pending_jobs s > 0
      then (False, s\<lparr> m_waiting := True, m_counter_cv := m_counter_cv s @ [WBlocked] \<rparr>)
      else (True, s))"

definition wait_resume :: "nat \<Rightarrow> ThreadPool \<Rightarrow> (bool \<times> ThreadPool) option" where
  "wait_resume t s =
     (if t < length (m_counter_cv s) \<and> m_counter_cv s ! t = WWoken
      then Some (if m_pending_jobs s = 0
                 then (True, s\<lparr> m_waiting := False,
                                m_counter_cv := (m_counter_cv s)[t := WReturned] \<rparr>)
                 else (False, s\<lparr> m_counter_cv := (m_counter_cv s)[t := WBlocked] \<rparr>))
      else None)"

text \<open>\<open>clearQueue()\<close>: the value returned and the new state.\<close>

definition clearQueue :: "ThreadPool \<Rightarrow> nat \<times> ThreadPool" where
  "clearQueue s =
     (let queued_jobs_cleared = length (m_job_queue s)
      in (queued_jobs_cleared,
          s\<lparr> m_pending_jobs := m_pending_jobs s - int queued_jobs_cleared,
             m_job_queue := [] \<rparr>))"

subsection \<open>The worker loop\<close>

text \<open>
  \<open>worker_acquire i\<close> is the first block of the loop body for worker \<open>i\<close>: with the mutex
  locked, the predicate \<open>!m_job_queue.empty() || m_stopped\<close> decides whether the thread
  sleeps; if it does not, the thread takes the job at the front of the queue when the pool
  is not stopped, and leaves the loop when it is. \<open>None\<close>: worker \<open>i\<close> is not at the top of
  its loop.
\<close>

definition worker_acquire :: "nat \<Rightarrow> ThreadPool \<Rightarrow> ThreadPool option" where
  "worker_acquire i s =
     (if i < length (m_worker_threads s) \<and> m_worker_threads s ! i = LoopTop
      then Some
        (if m_job_queue s \<noteq> [] \<or> m_stopped s
         then (if \<not> m_stopped s
               then s\<lparr> m_job_queue := tl (m_job_queue s),
                       m_worker_threads := (m_worker_threads s)[i := Running (hd (m_job_queue s))] \<rparr>
               else s\<lparr> m_worker_threads := (m_worker_threads s)[i := Exited] \<rparr>)
         else s\<lparr> m_worker_threads := (m_worker_threads s)[i := Blocked] \<rparr>)
      else None)"

text \<open>
  \<open>worker_finish k i\<close>: the job of worker \<open>i\<close> has returned, and the worker runs the second
  block of the loop body, then goes back to the top of the loop. \<open>k\<close> is the scheduler's
  choice in \<open>m_counter_cv.notify_one()\<close>. \<open>None\<close>: worker \<open>i\<close> is not running a job.
\<close>

definition worker_finish :: "nat \<Rightarrow> nat \<Rightarrow> ThreadPool \<Rightarrow> ThreadPool option" where
  "worker_finish k i s =
     (if i < length (m_worker_threads s)
      then (case m_worker_threads s ! i of
              Running j \<Rightarrow>
                let pending = m_pending_jobs s - 1
                in Some (s\<lparr> m_pending_jobs := pending,
                            m_counter_cv := (if pending = 0 \<and> m_waiting s
                                             then notify_one WBlocked WWoken k (m_counter_cv s)
                                             else m_counter_cv s),
                            m_worker_threads := (m_worker_threads s)[i := LoopTop] \<rparr>)
            | _ \<Rightarrow> None)
      else None)"

text \<open>
  A wait on a condition variable may end without a notification. The predicate is then
  evaluated again, as after a notification.
\<close>

definition spurious_worker :: "nat \<Rightarrow> ThreadPool \<Rightarrow> ThreadPool option" where
  "spurious_worker i s =
     (if i < length (m_worker_threads s) \<and> m_worker_threads s ! i = Blocked
      then Some (s\<lparr> m_worker_threads := (m_worker_threads s)[i := LoopTop] \<rparr>)
      else None)"

definition spurious_waiter :: "nat \<Rightarrow> ThreadPool \<Rightarrow> ThreadPool option" where
  "spurious_waiter t s =
     (if t < length (m_counter_cv s) \<and> m_counter_cv s ! t = WBlocked
      then Some (s\<lparr> m_counter_cv := (m_counter_cv s)[t := WWoken] \<rparr>)
      else None)"

subsection \<open>Interleavings\<close>

text \<open>
  One atomic step of some thread. \<open>None\<close> means that the step cannot be taken in this
  state. \<open>start\<close> and \<open>stop\<close> are serialised by their callers: a \<open>start\<close> while a \<open>stop\<close> is
  joining would write \<open>m_worker_threads\<close> while the loop of joins reads it without the
  mutex, which is a data race, so that interleaving is not a run of the program.
\<close>

datatype action =
    AddJob job nat
  | Start nat
  | Stop bool
  | Join
  | Wait
  | Resume nat
  | ClearQueue
  | Acquire nat
  | Finish nat nat
  | WakeWorker nat
  | WakeWaiter nat

fun step :: "nat \<Rightarrow> action \<Rightarrow> ThreadPool \<Rightarrow> ThreadPool option" where
  "step hw (AddJob j k) s = Some (addJob k j s)"
| "step hw (Start n) s = (if joining s then None else Some (snd (start hw n s)))"
| "step hw (Stop c) s = Some (snd (stop_locked c s))"
| "step hw Join s = (if joining s then stop_join s else None)"
| "step hw Wait s = Some (snd (wait_enter s))"
| "step hw (Resume t) s = map_option snd (wait_resume t s)"
| "step hw ClearQueue s = Some (snd (clearQueue s))"
| "step hw (Acquire i) s = worker_acquire i s"
| "step hw (Finish i k) s = worker_finish k i s"
| "step hw (WakeWorker i) s = spurious_worker i s"
| "step hw (WakeWaiter t) s = spurious_waiter t s"

fun exec :: "nat \<Rightarrow> action list \<Rightarrow> ThreadPool \<Rightarrow> ThreadPool option" where
  "exec hw [] s = Some s"
| "exec hw (a # as) s = (case step hw a s of None \<Rightarrow> None | Some s' \<Rightarrow> exec hw as s')"

text \<open>The number of workers that are executing a job.\<close>

fun is_running :: "worker \<Rightarrow> bool" where
  "is_running (Running j) = True"
| "is_running _ = False"

definition executing :: "ThreadPool \<Rightarrow> nat" where
  "executing s = length (filter is_running (m_worker_threads s))"

text \<open>The accounting the counter is meant to keep.\<close>

definition accounting :: "ThreadPool \<Rightarrow> bool" where
  "accounting s \<longleftrightarrow>
     0 \<le> m_pending_jobs s \<and>
     m_pending_jobs s = int (length (m_job_queue s)) + int (executing s)"

text \<open>
  What the counter keeps on every run, also after a \<open>stop\<close> that dropped the queue: it is
  never below the number of queued and executing jobs.
\<close>

definition pending_bound :: "ThreadPool \<Rightarrow> bool" where
  "pending_bound s \<longleftrightarrow> int (length (m_job_queue s)) + int (executing s) \<le> m_pending_jobs s"

text \<open>
  Whether the accounting holds, what \<open>pendingJobs()\<close>, \<open>queuedJobs()\<close> and
  \<open>runningJobs()\<close> return, and the number of workers that are executing a job.
\<close>

definition observe :: "ThreadPool \<Rightarrow> bool \<times> nat \<times> nat \<times> nat \<times> nat" where
  "observe s = (accounting s, pendingJobs s, queuedJobs s, runningJobs s, executing s)"

text \<open>
  What a thread in \<open>wait()\<close> depends on: the counter, the value \<open>pendingJobs()\<close> returns,
  the waiter flag, and the threads that went to sleep on \<open>m_counter_cv\<close>.
\<close>

definition waiting_view :: "ThreadPool \<Rightarrow> int \<times> nat \<times> bool \<times> waiter list" where
  "waiting_view s = (m_pending_jobs s, pendingJobs s, m_waiting s, m_counter_cv s)"

section \<open>Example states\<close>

text \<open>A running pool: one worker executes job 5, one sleeps, jobs 7 and 8 are queued.\<close>

definition busy_pool :: ThreadPool where
  "busy_pool = \<lparr> m_stopped = False, m_waiting = False, m_job_queue = [7, 8],
                 m_worker_threads = [Running 5, Blocked], m_pending_jobs = 3,
                 m_counter_cv = [], joining = False \<rparr>"

text \<open>
  A pool that \<open>stop\<close> has just stopped: worker 0 is at the top of its loop, worker 1 still
  executes job 5, job 8 is queued, and the caller of \<open>stop\<close> is joining. Then the same pool
  once both workers have left their loops.
\<close>

definition stopping_pool :: ThreadPool where
  "stopping_pool = \<lparr> m_stopped = True, m_waiting = False, m_job_queue = [8],
                     m_worker_threads = [LoopTop, Running 5], m_pending_jobs = 2,
                     m_counter_cv = [], joining = True \<rparr>"

definition drained_pool :: ThreadPool where
  "drained_pool = \<lparr> m_stopped = True, m_waiting = False, m_job_queue = [8],
                    m_worker_threads = [Exited, Exited], m_pending_jobs = 1,
                    m_counter_cv = [], joining = True \<rparr>"

text \<open>
  Two threads sleep in \<open>wait()\<close> while the only worker executes the last pending job.
\<close>

definition two_waiters :: ThreadPool where
  "two_waiters = \<lparr> m_stopped = False, m_waiting = True, m_job_queue = [],
                   m_worker_threads = [Running 1], m_pending_jobs = 1,
                   m_counter_cv = [WBlocked, WBlocked], joining = False \<rparr>"

text \<open>
  The stopped pool above after \<open>stop(false)\<close> has returned and \<open>start(1)\<close> was called: job 8
  is still queued.
\<close>

definition restarted_pool :: ThreadPool where
  "restarted_pool =
     snd (start 1 1 (drained_pool\<lparr> m_worker_threads := [], joining := False \<rparr>))"

section \<open>Facts about the helpers\<close>

lemma spawn_replicate: "spawn i n ws = ws @ replicate (n - i) LoopTop"
proof (induction i n ws rule: spawn.induct)
  case (1 i worker_count ws)
  show ?case
  proof (cases "i < worker_count")
    case True
    then have "worker_count - i = Suc (worker_count - Suc i)" by simp
    with True 1 show ?thesis
      by (simp add: replicate_append_same spawn.simps [of i])
  next
    case False
    then show ?thesis by (simp add: spawn.simps [of i])
  qed
qed

lemma blocked_ids_sound: "i \<in> set (blocked_ids b ts) \<Longrightarrow> i < length ts \<and> ts ! i = b"
  by (auto simp: blocked_ids_def)

lemma blocked_ids_Nil: "blocked_ids b ts = [] \<longleftrightarrow> b \<notin> set ts"
  by (auto simp: blocked_ids_def filter_empty_conv in_set_conv_nth)

lemma notify_one_cases:
  "notify_one b r k ts = ts \<and> b \<notin> set ts \<or>
   (\<exists>i<length ts. ts ! i = b \<and> notify_one b r k ts = ts[i := r])"
proof (cases "blocked_ids b ts")
  case Nil
  then have "b \<notin> set ts" by (simp add: blocked_ids_Nil)
  moreover from Nil have "notify_one b r k ts = ts" by (simp add: notify_one_def)
  ultimately show ?thesis by simp
next
  case (Cons i "is")
  let ?c = "(i # is) ! (k mod length (i # is))"
  have "?c \<in> set (blocked_ids b ts)"
    unfolding Cons by (rule nth_mem) simp
  then have "?c < length ts \<and> ts ! ?c = b" by (rule blocked_ids_sound)
  moreover have "notify_one b r k ts = ts[?c := r]"
    by (simp add: notify_one_def Cons)
  ultimately show ?thesis by blast
qed

lemma length_notify_one [simp]: "length (notify_one b r k ts) = length ts"
  using notify_one_cases [of b r k ts] by auto

lemma length_notify_all [simp]: "length (notify_all b r ts) = length ts"
  by (simp add: notify_all_def)

lemma filter_update_count:
  "i < length xs \<Longrightarrow>
   length (filter P (xs[i := x])) + (if P (xs ! i) then 1 else 0) =
   length (filter P xs) + (if P x then 1 else 0)"
proof (induction xs arbitrary: i)
  case Nil
  then show ?case by simp
next
  case (Cons y ys)
  then show ?case by (cases i) auto
qed

lemma running_notify_one:
  "length (filter is_running (notify_one Blocked LoopTop k ws)) = length (filter is_running ws)"
proof -
  from notify_one_cases [of Blocked LoopTop k ws]
  consider "notify_one Blocked LoopTop k ws = ws"
    | i where "i < length ws" "ws ! i = Blocked" "notify_one Blocked LoopTop k ws = ws[i := LoopTop]"
    by blast
  then show ?thesis
  proof cases
    case 1
    then show ?thesis by simp
  next
    case 2
    with filter_update_count [of i ws is_running LoopTop] show ?thesis by simp
  qed
qed

lemma running_notify_all:
  "length (filter is_running (notify_all Blocked LoopTop ws)) = length (filter is_running ws)"
  by (induction ws) (auto simp: notify_all_def)

lemma join_all_iff: "join_all ws \<longleftrightarrow> (\<forall>w \<in> set ws. w = Exited)"
  by (induction ws) auto

lemma join_all_not_running: "join_all ws \<Longrightarrow> filter is_running ws = []"
  by (induction ws) auto

lemma to_size_t_id: "0 \<le> x \<Longrightarrow> x < 2 ^ 64 \<Longrightarrow> to_size_t x = nat x"
  by (simp add: to_size_t_def)

lemma clearQueue_pendingJobs: "pendingJobs (snd (clearQueue s)) + fst (clearQueue s) = pendingJobs s"
    if "int (length (m_job_queue s)) \<le> m_pending_jobs s" "m_pending_jobs s < 2 ^ 63"
proof -
  let ?p = "m_pending_jobs s" and ?n = "int (length (m_job_queue s))"
  have "0 \<le> ?p - ?n" "?p - ?n < 2 ^ 64" "0 \<le> ?p" "?p < 2 ^ 64"
    using that by simp_all
  then have "to_size_t (?p - ?n) = nat (?p - ?n)" "to_size_t ?p = nat ?p"
    by (simp_all only: to_size_t_id)
  then show ?thesis
    using that by (simp add: pendingJobs_def clearQueue_def Let_def)
qed

lemma start_stopped:
  "m_stopped s \<Longrightarrow> start hw n s =
     (True, s\<lparr> m_stopped := False,
                m_worker_threads :=
                  m_worker_threads s @ replicate (if n = 0 then hw else n) LoopTop \<rparr>)"
  by (simp add: start_def Let_def spawn_replicate)

subsection \<open>Steps and the worker threads\<close>

lemma notify_one_nth:
  "i < length ts \<Longrightarrow>
   notify_one b r k ts ! i = ts ! i \<or> (ts ! i = b \<and> notify_one b r k ts ! i = r)"
  using notify_one_cases [of b r k ts]
  by (auto simp: nth_list_update split: if_splits)

lemma notify_all_nth:
  "i < length ts \<Longrightarrow> notify_all b r ts ! i = (if ts ! i = b then r else ts ! i)"
  by (simp add: notify_all_def)

lemma stop_join_Some:
  "stop_join s = Some s' \<longleftrightarrow>
   join_all (m_worker_threads s) \<and> s' = s\<lparr> m_worker_threads := [], joining := False \<rparr>"
  by (auto simp: stop_join_def)

lemma worker_finish_Some:
  "worker_finish k i s = Some s' \<longleftrightarrow>
   i < length (m_worker_threads s) \<and> is_running (m_worker_threads s ! i) \<and>
   s' = s\<lparr> m_pending_jobs := m_pending_jobs s - 1,
           m_counter_cv := (if m_pending_jobs s - 1 = 0 \<and> m_waiting s
                            then notify_one WBlocked WWoken k (m_counter_cv s)
                            else m_counter_cv s),
           m_worker_threads := (m_worker_threads s)[i := LoopTop] \<rparr>"
  by (auto simp: worker_finish_def Let_def split: worker.splits)

lemma running_started:
  assumes "step hw a s = Some s'"
    and "i < length (m_worker_threads s')"
    and "m_worker_threads s' ! i = Running j"
  shows "i < length (m_worker_threads s) \<and> m_worker_threads s ! i = Running j \<or>
         a = Acquire i \<and> \<not> m_stopped s \<and> m_job_queue s \<noteq> [] \<and> j = hd (m_job_queue s) \<and>
         m_job_queue s' = tl (m_job_queue s)"
proof (cases a)
  case (AddJob x k)
  with assms notify_one_nth [of i "m_worker_threads s" Blocked LoopTop k]
  show ?thesis by (auto simp: addJob_def)
next
  case (Start n)
  with assms show ?thesis
    by (auto simp: start_def Let_def spawn_replicate nth_append split: if_splits)
next
  case (Stop c)
  with assms show ?thesis
    by (auto simp: stop_locked_def notify_all_nth split: if_splits)
next
  case Join
  with assms show ?thesis
    by (auto simp: stop_join_Some split: if_splits)
next
  case Wait
  with assms show ?thesis
    by (auto simp: wait_enter_def split: if_splits)
next
  case (Resume t)
  with assms show ?thesis
    by (auto simp: wait_resume_def split: if_splits)
next
  case ClearQueue
  with assms show ?thesis
    by (auto simp: clearQueue_def Let_def)
next
  case (Acquire w)
  with assms show ?thesis
    by (auto simp: worker_acquire_def nth_list_update split: if_splits)
next
  case (Finish w k)
  with assms show ?thesis
    by (auto simp: worker_finish_Some nth_list_update split: if_splits)
next
  case (WakeWorker w)
  with assms show ?thesis
    by (auto simp: spurious_worker_def nth_list_update split: if_splits)
next
  case (WakeWaiter t)
  with assms show ?thesis
    by (auto simp: spurious_waiter_def split: if_splits)
qed

lemma running_kept:
  assumes "step hw a s = Some s'"
    and "i < length (m_worker_threads s)"
    and "m_worker_threads s ! i = Running j"
    and "\<And>k. a \<noteq> Finish i k"
  shows "i < length (m_worker_threads s') \<and> m_worker_threads s' ! i = Running j"
proof (cases a)
  case (AddJob x k)
  with assms notify_one_nth [of i "m_worker_threads s" Blocked LoopTop k]
  show ?thesis by (auto simp: addJob_def)
next
  case (Start n)
  with assms show ?thesis
    by (auto simp: start_def Let_def spawn_replicate nth_append split: if_splits)
next
  case (Stop c)
  with assms show ?thesis
    by (auto simp: stop_locked_def notify_all_nth split: if_splits)
next
  case Join
  with assms have "join_all (m_worker_threads s)"
    by (auto simp: stop_join_Some split: if_splits)
  with assms(2,3) nth_mem [of i "m_worker_threads s"] have False
    by (auto simp: join_all_iff)
  then show ?thesis ..
next
  case Wait
  with assms show ?thesis
    by (auto simp: wait_enter_def split: if_splits)
next
  case (Resume t)
  with assms show ?thesis
    by (auto simp: wait_resume_def split: if_splits)
next
  case ClearQueue
  with assms show ?thesis
    by (auto simp: clearQueue_def Let_def)
next
  case (Acquire w)
  with assms show ?thesis
    by (auto simp: worker_acquire_def nth_list_update split: if_splits)
next
  case (Finish w k)
  with assms have "w \<noteq> i" by auto
  with Finish assms show ?thesis
    by (auto simp: worker_finish_Some nth_list_update split: if_splits)
next
  case (WakeWorker w)
  with assms show ?thesis
    by (auto simp: spurious_worker_def nth_list_update split: if_splits)
next
  case (WakeWaiter t)
  with assms show ?thesis
    by (auto simp: spurious_waiter_def split: if_splits)
qed

lemma acquire_stopped:
  "m_stopped s \<Longrightarrow> worker_acquire i s = Some s' \<Longrightarrow>
   s' = s\<lparr> m_worker_threads := (m_worker_threads s)[i := Exited] \<rparr>"
  by (auto simp: worker_acquire_def split: if_splits)

lemma acquire_running:
  "\<not> m_stopped s \<Longrightarrow> m_job_queue s \<noteq> [] \<Longrightarrow> worker_acquire i s = Some s' \<Longrightarrow>
   s' = s\<lparr> m_job_queue := tl (m_job_queue s),
           m_worker_threads := (m_worker_threads s)[i := Running (hd (m_job_queue s))] \<rparr>"
  by (auto simp: worker_acquire_def split: if_splits)

lemma acquire_enabled:
  "i < length (m_worker_threads s) \<Longrightarrow> m_worker_threads s ! i = LoopTop \<Longrightarrow>
   worker_acquire i s \<noteq> None"
  by (simp add: worker_acquire_def)

lemma finish_enabled:
  "i < length (m_worker_threads s) \<Longrightarrow> m_worker_threads s ! i = Running j \<Longrightarrow>
   worker_finish k i s \<noteq> None"
  by (simp add: worker_finish_def Let_def)

lemma stopped_queue_step:
  assumes "m_stopped s" and "step hw a s = Some s'"
  shows "m_job_queue s' = m_job_queue s \<or>
         (\<exists>j k. a = AddJob j k \<and> m_job_queue s' = m_job_queue s @ [j]) \<or>
         a = ClearQueue \<and> m_job_queue s' = []"
proof (cases a)
  case (AddJob x k)
  with assms show ?thesis by (auto simp: addJob_def)
next
  case (Start n)
  with assms show ?thesis by (auto simp: start_def Let_def split: if_splits)
next
  case (Stop c)
  with assms show ?thesis by (auto simp: stop_locked_def)
next
  case Join
  with assms show ?thesis by (auto simp: stop_join_Some split: if_splits)
next
  case Wait
  with assms show ?thesis by (auto simp: wait_enter_def split: if_splits)
next
  case (Resume t)
  with assms show ?thesis by (auto simp: wait_resume_def split: if_splits)
next
  case ClearQueue
  with assms show ?thesis by (auto simp: clearQueue_def Let_def)
next
  case (Acquire w)
  with assms acquire_stopped [of s w s'] show ?thesis by auto
next
  case (Finish w k)
  with assms show ?thesis by (auto simp: worker_finish_Some)
next
  case (WakeWorker w)
  with assms show ?thesis by (auto simp: spurious_worker_def split: if_splits)
next
  case (WakeWaiter t)
  with assms show ?thesis by (auto simp: spurious_waiter_def split: if_splits)
qed

lemma restart_only_by_start:
  assumes "m_stopped s" and "step hw a s = Some s'" and "\<not> m_stopped s'"
  shows "\<exists>n. a = Start n \<and> fst (start hw n s)"
proof (cases a)
  case (AddJob x k)
  with assms show ?thesis by (auto simp: addJob_def)
next
  case (Start n)
  with assms show ?thesis by (auto simp: start_def Let_def split: if_splits)
next
  case (Stop c)
  with assms show ?thesis by (auto simp: stop_locked_def)
next
  case Join
  with assms show ?thesis by (auto simp: stop_join_Some split: if_splits)
next
  case Wait
  with assms show ?thesis by (auto simp: wait_enter_def split: if_splits)
next
  case (Resume t)
  with assms show ?thesis by (auto simp: wait_resume_def split: if_splits)
next
  case ClearQueue
  with assms show ?thesis by (auto simp: clearQueue_def Let_def)
next
  case (Acquire w)
  with assms acquire_stopped [of s w s'] show ?thesis by auto
next
  case (Finish w k)
  with assms show ?thesis by (auto simp: worker_finish_Some)
next
  case (WakeWorker w)
  with assms show ?thesis by (auto simp: spurious_worker_def split: if_splits)
next
  case (WakeWaiter t)
  with assms show ?thesis by (auto simp: spurious_waiter_def split: if_splits)
qed



lemma wait_resume_Some:
  "wait_resume t s = Some (r, s') \<longleftrightarrow>
   t < length (m_counter_cv s) \<and> m_counter_cv s ! t = WWoken \<and>
   (r \<longleftrightarrow> m_pending_jobs s = 0) \<and>
   s' = (if m_pending_jobs s = 0
         then s\<lparr> m_waiting := False, m_counter_cv := (m_counter_cv s)[t := WReturned] \<rparr>
         else s\<lparr> m_counter_cv := (m_counter_cv s)[t := WBlocked] \<rparr>)"
  by (auto simp: wait_resume_def)

text \<open>
  The body of \<open>wait()\<close>: it returns at once when the counter is 0; otherwise the caller
  sleeps and has no step until it is woken; a woken caller returns exactly when it reads the
  counter as 0; the state flag, the queue, the counter and the workers are never changed.
\<close>

lemma wait_enter_resume:
  "(m_pending_jobs s = 0 \<longrightarrow> wait_enter s = (True, s)) \<and>
   (0 < m_pending_jobs s \<longrightarrow>
      wait_enter s =
        (False, s\<lparr> m_waiting := True, m_counter_cv := m_counter_cv s @ [WBlocked] \<rparr>) \<and>
      wait_resume (length (m_counter_cv s)) (snd (wait_enter s)) = None) \<and>
   (wait_resume t s = Some (r, s') \<longrightarrow>
      m_counter_cv s ! t = WWoken \<and>
      (r \<longleftrightarrow> m_pending_jobs s = 0) \<and>
      m_counter_cv s' = (m_counter_cv s)[t := (if r then WReturned else WBlocked)] \<and>
      m_stopped s' = m_stopped s \<and> m_job_queue s' = m_job_queue s \<and>
      m_pending_jobs s' = m_pending_jobs s \<and> m_worker_threads s' = m_worker_threads s) \<and>
   (t < length (m_counter_cv s) \<and> m_counter_cv s ! t = WWoken \<and> m_pending_jobs s = 0 \<longrightarrow>
      wait_resume t s =
        Some (True, s\<lparr> m_waiting := False,
                         m_counter_cv := (m_counter_cv s)[t := WReturned] \<rparr>)) \<and>
   m_stopped (snd (wait_enter s)) = m_stopped s \<and>
   m_job_queue (snd (wait_enter s)) = m_job_queue s \<and>
   m_pending_jobs (snd (wait_enter s)) = m_pending_jobs s \<and>
   m_worker_threads (snd (wait_enter s)) = m_worker_threads s"
proof -
  have f: "wait_resume t s =
        Some (True, s\<lparr> m_waiting := False,
                         m_counter_cv := (m_counter_cv s)[t := WReturned] \<rparr>)"
    if "t < length (m_counter_cv s)" "m_counter_cv s ! t = WWoken" "m_pending_jobs s = 0"
    using that by (simp add: wait_resume_def)
  have a: "wait_enter s = (True, s)" if "m_pending_jobs s = 0"
    using that by (simp add: wait_enter_def)
  have b: "wait_enter s =
        (False, s\<lparr> m_waiting := True, m_counter_cv := m_counter_cv s @ [WBlocked] \<rparr>)"
    if "0 < m_pending_jobs s"
    using that by (simp add: wait_enter_def)
  have c: "wait_resume (length (m_counter_cv s)) (snd (wait_enter s)) = None"
    if "0 < m_pending_jobs s"
    using that by (simp add: wait_enter_def wait_resume_def)
  have d: "m_counter_cv s ! t = WWoken \<and>
      (r \<longleftrightarrow> m_pending_jobs s = 0) \<and>
      m_counter_cv s' = (m_counter_cv s)[t := (if r then WReturned else WBlocked)] \<and>
      m_stopped s' = m_stopped s \<and> m_job_queue s' = m_job_queue s \<and>
      m_pending_jobs s' = m_pending_jobs s \<and> m_worker_threads s' = m_worker_threads s"
    if "wait_resume t s = Some (r, s')"
    using that by (simp add: wait_resume_Some split: if_splits)
  have e: "m_stopped (snd (wait_enter s)) = m_stopped s"
    "m_job_queue (snd (wait_enter s)) = m_job_queue s"
    "m_pending_jobs (snd (wait_enter s)) = m_pending_jobs s"
    "m_worker_threads (snd (wait_enter s)) = m_worker_threads s"
    by (simp_all add: wait_enter_def)
  from a b c d e f show ?thesis by blast
qed

text \<open>
  A thread asleep in \<open>wait()\<close> stays asleep over every step, except that it may be woken by a
  worker that finishes the last pending job while the waiter flag is set, or without any
  notification.
\<close>

lemma blocked_waiter_step:
  assumes "step hw a s = Some s'"
    and "t < length (m_counter_cv s)"
    and "m_counter_cv s ! t = WBlocked"
  shows "t < length (m_counter_cv s') \<and>
         (m_counter_cv s' ! t = WBlocked \<or>
          m_counter_cv s' ! t = WWoken \<and>
            (a = WakeWaiter t \<or>
             (\<exists>i k. a = Finish i k \<and> m_pending_jobs s = 1 \<and> m_waiting s)))"
proof (cases a)
  case (AddJob x k)
  with assms show ?thesis by (auto simp: addJob_def)
next
  case (Start n)
  with assms show ?thesis by (auto simp: start_def Let_def split: if_splits)
next
  case (Stop c)
  with assms show ?thesis by (auto simp: stop_locked_def)
next
  case Join
  with assms show ?thesis by (auto simp: stop_join_Some split: if_splits)
next
  case Wait
  with assms show ?thesis by (auto simp: wait_enter_def nth_append split: if_splits)
next
  case (Resume u)
  with assms show ?thesis
    by (auto simp: wait_resume_def nth_list_update split: if_splits)
next
  case ClearQueue
  with assms show ?thesis by (auto simp: clearQueue_def Let_def)
next
  case (Acquire w)
  with assms show ?thesis by (auto simp: worker_acquire_def split: if_splits)
next
  case (Finish w k)
  with assms have f: "worker_finish k w s = Some s'" by simp
  then have cv: "m_counter_cv s' =
               (if m_pending_jobs s - 1 = 0 \<and> m_waiting s
                then notify_one WBlocked WWoken k (m_counter_cv s) else m_counter_cv s)"
    by (simp add: worker_finish_Some)
  from notify_one_nth [OF assms(2), of WBlocked WWoken k] cv assms(2,3) Finish
  show ?thesis by (auto split: if_splits)
next
  case (WakeWorker w)
  with assms show ?thesis by (auto simp: spurious_worker_def split: if_splits)
next
  case (WakeWaiter u)
  with assms show ?thesis
    by (auto simp: spurious_waiter_def nth_list_update split: if_splits)
qed

subsection \<open>Steps and the counter\<close>

lemma executing_update:
  "i < length (m_worker_threads s) \<Longrightarrow>
   length (filter is_running ((m_worker_threads s)[i := w])) +
     (if is_running (m_worker_threads s ! i) then 1 else 0) =
   executing s + (if is_running w then 1 else 0)"
  unfolding executing_def by (rule filter_update_count)

lemma executing_addJob: "executing (addJob k j s) = executing s"
  by (simp add: executing_def addJob_def running_notify_one)

lemma executing_start: "executing (snd (start hw n s)) = executing s"
  by (simp add: executing_def start_def Let_def spawn_replicate)

lemma executing_stop_locked: "executing (snd (stop_locked c s)) = executing s"
  by (simp add: executing_def stop_locked_def running_notify_all)

lemma executing_stop_join: "stop_join s = Some s' \<Longrightarrow> executing s' = 0 \<and> executing s = 0"
  by (auto simp: executing_def stop_join_Some join_all_not_running)

lemma executing_acquire:
  assumes "worker_acquire i s = Some s'"
  shows "if m_job_queue s \<noteq> [] \<and> \<not> m_stopped s
         then executing s' = Suc (executing s) \<and> m_job_queue s' = tl (m_job_queue s)
         else executing s' = executing s \<and> m_job_queue s' = m_job_queue s"
proof -
  from assms have i: "i < length (m_worker_threads s)" "m_worker_threads s ! i = LoopTop"
    by (auto simp: worker_acquire_def split: if_splits)
  from i executing_update [of i s "Running (hd (m_job_queue s))"]
       executing_update [of i s Exited] executing_update [of i s Blocked] assms
  show ?thesis
    by (auto simp: worker_acquire_def executing_def)
qed

lemma executing_finish:
  assumes "worker_finish k i s = Some s'"
  shows "Suc (executing s') = executing s"
proof -
  from assms have i: "i < length (m_worker_threads s)" "is_running (m_worker_threads s ! i)"
    and s': "m_worker_threads s' = (m_worker_threads s)[i := LoopTop]"
    by (auto simp: worker_finish_Some)
  from i executing_update [of i s LoopTop] s' show ?thesis
    by (simp add: executing_def)
qed

lemma executing_spurious_worker: "spurious_worker i s = Some s' \<Longrightarrow> executing s' = executing s"
  using executing_update [of i s LoopTop]
  by (auto simp: spurious_worker_def executing_def split: if_splits)

lemma accounting_step:
  assumes "accounting s" and "step hw a s = Some s'"
    and "a = Stop True \<Longrightarrow> m_stopped s \<or> m_job_queue s = []"
  shows "accounting s'"
proof (cases a)
  case (AddJob x k)
  with assms executing_addJob [of k x s] show ?thesis
    by (auto simp: accounting_def) (simp_all add: addJob_def)
next
  case (Start n)
  with assms executing_start [of hw n s] show ?thesis
    by (auto simp: accounting_def split: if_splits) (simp_all add: start_def Let_def)
next
  case (Stop c)
  with assms executing_stop_locked [of c s] show ?thesis
    by (cases c) (auto simp: accounting_def stop_locked_def)
next
  case Join
  with assms executing_stop_join [of s s'] show ?thesis
    by (auto simp: accounting_def stop_join_Some split: if_splits)
next
  case Wait
  with assms show ?thesis
    by (auto simp: accounting_def wait_enter_def executing_def)
next
  case (Resume t)
  with assms show ?thesis
    by (auto simp: accounting_def wait_resume_def executing_def split: if_splits)
next
  case ClearQueue
  with assms show ?thesis
    by (auto simp: accounting_def clearQueue_def Let_def executing_def)
next
  case (Acquire w)
  with assms have w: "worker_acquire w s = Some s'" by simp
  then have p: "m_pending_jobs s' = m_pending_jobs s"
    by (auto simp: worker_acquire_def split: if_splits)
  from executing_acquire [OF w] p assms(1) show ?thesis
    by (cases "m_job_queue s") (auto simp: accounting_def split: if_splits)
next
  case (Finish w k)
  with assms have w: "worker_finish k w s = Some s'" by simp
  then have p: "m_pending_jobs s' = m_pending_jobs s - 1" "m_job_queue s' = m_job_queue s"
    by (auto simp: worker_finish_Some)
  from executing_finish [OF w] p assms(1) show ?thesis
    by (auto simp: accounting_def)
next
  case (WakeWorker w)
  with assms executing_spurious_worker [of w s s'] show ?thesis
    by (auto simp: accounting_def spurious_worker_def split: if_splits)
next
  case (WakeWaiter t)
  with assms show ?thesis
    by (auto simp: accounting_def spurious_waiter_def executing_def split: if_splits)
qed

lemma pending_bound_step:
  assumes "pending_bound s" and "step hw a s = Some s'"
  shows "pending_bound s'"
proof (cases a)
  case (AddJob x k)
  with assms executing_addJob [of k x s] show ?thesis
    by (auto simp: pending_bound_def) (simp_all add: addJob_def)
next
  case (Start n)
  with assms executing_start [of hw n s] show ?thesis
    by (auto simp: pending_bound_def split: if_splits) (simp_all add: start_def Let_def)
next
  case (Stop c)
  with assms executing_stop_locked [of c s] show ?thesis
    by (cases c) (auto simp: pending_bound_def stop_locked_def)
next
  case Join
  with assms executing_stop_join [of s s'] show ?thesis
    by (auto simp: pending_bound_def stop_join_Some split: if_splits)
next
  case Wait
  with assms show ?thesis
    by (auto simp: pending_bound_def wait_enter_def executing_def)
next
  case (Resume t)
  with assms show ?thesis
    by (auto simp: pending_bound_def wait_resume_def executing_def split: if_splits)
next
  case ClearQueue
  with assms show ?thesis
    by (auto simp: pending_bound_def clearQueue_def Let_def executing_def)
next
  case (Acquire w)
  with assms have w: "worker_acquire w s = Some s'" by simp
  then have p: "m_pending_jobs s' = m_pending_jobs s"
    by (auto simp: worker_acquire_def split: if_splits)
  from executing_acquire [OF w] p assms(1) show ?thesis
    by (cases "m_job_queue s") (auto simp: pending_bound_def split: if_splits)
next
  case (Finish w k)
  with assms have w: "worker_finish k w s = Some s'" by simp
  then have p: "m_pending_jobs s' = m_pending_jobs s - 1" "m_job_queue s' = m_job_queue s"
    by (auto simp: worker_finish_Some)
  from executing_finish [OF w] p assms(1) show ?thesis
    by (auto simp: pending_bound_def)
next
  case (WakeWorker w)
  with assms executing_spurious_worker [of w s s'] show ?thesis
    by (auto simp: pending_bound_def spurious_worker_def split: if_splits)
next
  case (WakeWaiter t)
  with assms show ?thesis
    by (auto simp: pending_bound_def spurious_waiter_def executing_def split: if_splits)
qed

lemma pending_bound_ctor: "pending_bound (ThreadPool_ctor hw auto_start n)"
  by (simp add: pending_bound_def ThreadPool_ctor_def executing_start)
     (simp add: start_def Let_def initial_def executing_def spawn_replicate)

lemma pending_bound_exec:
  "pending_bound s \<Longrightarrow> exec hw as s = Some s' \<Longrightarrow> pending_bound s'"
proof (induction as arbitrary: s)
  case Nil
  then show ?case by simp
next
  case (Cons a as)
  then show ?case
    by (auto split: option.splits dest: pending_bound_step)
qed

section \<open>The claims\<close>

text \<open>
  C1. The counter is meant to equal the number of queued jobs plus the number of jobs being
  executed. One run shows it does not after \<open>stop(true)\<close>: a pool with one worker, job 1 is
  added and dequeued, job 2 is added; the accounting holds (2 pending, 1 queued, 1 executing).
  \<open>stop(true)\<close> then drops job 2 from the queue and leaves the counter at 2, with one job
  executing. After the worker has finished job 1 and left its loop and \<open>stop\<close> has joined it,
  \<open>pendingJobs()\<close> and \<open>runningJobs()\<close> return 1 although no job is queued and no worker
  exists. (Lemma \<open>accounting_step\<close> shows that every other step keeps the accounting.)
\<close>

theorem C1_stop_clear_queue_leaves_counter:
  "map_option observe
     (exec 1 [AddJob 1 0, Acquire 0, AddJob 2 0] (ThreadPool_ctor 1 True 1)) =
     Some (True, 2, 1, 1, 1) \<and>
   map_option observe
     (exec 1 [AddJob 1 0, Acquire 0, AddJob 2 0, Stop True] (ThreadPool_ctor 1 True 1)) =
     Some (False, 2, 0, 2, 1) \<and>
   map_option observe
     (exec 1 [AddJob 1 0, Acquire 0, AddJob 2 0, Stop True, Finish 0 0, Acquire 0, Join]
        (ThreadPool_ctor 1 True 1)) =
     Some (False, 1, 0, 1, 0)"
  by code_simp

text \<open>
  C2. (1) A worker that takes its turn while the pool is stopped leaves the queue alone and
  exits. (2) No step taken in a stopped pool puts a worker into the state of executing a
  job: a worker that executes a job after the step did so before it. (3) A worker that
  executes a job can always finish it, stopped pool or not, and no step of another thread
  takes the job away from it. (4) The loop of joins of \<open>stop\<close> ends, and \<open>stop\<close> returns, only
  in a state where every worker thread has exited; none is executing a job then, and the
  vector of threads is cleared.
\<close>

theorem C2_stopped_pool_starts_no_job:
  "(m_stopped s \<and> worker_acquire i s = Some s' \<longrightarrow>
      m_job_queue s' = m_job_queue s \<and>
      m_worker_threads s' = (m_worker_threads s)[i := Exited]) \<and>
   (m_stopped s \<and> step hw a s = Some s' \<and>
    w < length (m_worker_threads s') \<and> m_worker_threads s' ! w = Running j \<longrightarrow>
      w < length (m_worker_threads s) \<and> m_worker_threads s ! w = Running j) \<and>
   (w < length (m_worker_threads s) \<and> m_worker_threads s ! w = Running j \<longrightarrow>
      worker_finish k w s \<noteq> None \<and>
      (step hw a s = Some s' \<and> (\<forall>k'. a \<noteq> Finish w k') \<longrightarrow>
         w < length (m_worker_threads s') \<and> m_worker_threads s' ! w = Running j)) \<and>
   (step hw Join s = Some s' \<longrightarrow>
      joining s \<and> (\<forall>x \<in> set (m_worker_threads s). x = Exited) \<and> executing s = 0 \<and>
      m_worker_threads s' = [])"
proof -
  have a: "m_job_queue s' = m_job_queue s \<and>
           m_worker_threads s' = (m_worker_threads s)[i := Exited]"
    if "m_stopped s" "worker_acquire i s = Some s'"
    using acquire_stopped [OF that] by simp
  have b: "w < length (m_worker_threads s) \<and> m_worker_threads s ! w = Running j"
    if "m_stopped s" "step hw a s = Some s'" "w < length (m_worker_threads s')"
      "m_worker_threads s' ! w = Running j"
    using running_started [OF that(2,3,4)] that(1) by blast
  have c: "worker_finish k w s \<noteq> None"
    if "w < length (m_worker_threads s)" "m_worker_threads s ! w = Running j"
    using that by (rule finish_enabled)
  have d: "w < length (m_worker_threads s') \<and> m_worker_threads s' ! w = Running j"
    if "w < length (m_worker_threads s)" "m_worker_threads s ! w = Running j"
      "step hw a s = Some s'" "\<forall>k'. a \<noteq> Finish w k'"
    using running_kept [OF that(3) that(1,2)] that(4) by blast
  have e: "joining s \<and> (\<forall>x \<in> set (m_worker_threads s). x = Exited) \<and> executing s = 0 \<and>
           m_worker_threads s' = []"
    if "step hw Join s = Some s'"
  proof -
    from that have j: "joining s" "stop_join s = Some s'"
      by (simp_all split: if_splits)
    from j(2) have "join_all (m_worker_threads s)" "m_worker_threads s' = []"
      by (simp_all add: stop_join_Some)
    with j executing_stop_join [OF j(2)] show ?thesis
      by (simp add: join_all_iff)
  qed
  from a b c d e show ?thesis by blast
qed

theorem C2_stopped_pool_starts_no_job_witness:
  "m_stopped stopping_pool \<and>
   worker_acquire 0 stopping_pool =
     Some (stopping_pool\<lparr> m_worker_threads := [Exited, Running 5] \<rparr>) \<and>
   step 1 (Acquire 0) stopping_pool =
     Some (stopping_pool\<lparr> m_worker_threads := [Exited, Running 5] \<rparr>) \<and>
   m_job_queue (stopping_pool\<lparr> m_worker_threads := [Exited, Running 5] \<rparr>) = [8] \<and>
   m_worker_threads stopping_pool ! 1 = Running 5 \<and>
   worker_finish 0 1 stopping_pool \<noteq> None \<and>
   step 1 Join stopping_pool = None \<and>
   step 1 Join drained_pool = Some (drained_pool\<lparr> m_worker_threads := [], joining := False \<rparr>) \<and>
   executing drained_pool = 0"
proof -
  let ?s' = "stopping_pool\<lparr> m_worker_threads := [Exited, Running 5] \<rparr>"
  let ?d' = "drained_pool\<lparr> m_worker_threads := [], joining := False \<rparr>"
  have h1: "m_stopped stopping_pool" by (simp add: stopping_pool_def)
  have h2: "worker_acquire 0 stopping_pool = Some ?s'"
    by (simp add: stopping_pool_def worker_acquire_def)
  have h3: "step 1 (Acquire 0) stopping_pool = Some ?s'" using h2 by simp
  have h4: "1 < length (m_worker_threads stopping_pool)"
    "m_worker_threads stopping_pool ! 1 = Running 5"
    "1 < length (m_worker_threads ?s')" "m_worker_threads ?s' ! 1 = Running 5"
    by (simp_all add: stopping_pool_def)
  have h5: "\<forall>k'. Acquire 0 \<noteq> Finish 1 k'" by simp
  have h6: "step 1 Join drained_pool = Some ?d'"
    by (simp add: drained_pool_def stop_join_def)
  have h7: "step 1 Join stopping_pool = None"
    by (simp add: stopping_pool_def stop_join_def)
  have q: "m_job_queue ?s' = [8]" by (simp add: stopping_pool_def)
  note t1 = C2_stopped_pool_starts_no_job [of stopping_pool 0 ?s' 1 "Acquire 0" 1 5 0]
  note t2 = C2_stopped_pool_starts_no_job [of drained_pool 0 ?d' 1 Join 1 5 0]
  from t1 h4 have f: "worker_finish 0 1 stopping_pool \<noteq> None" by blast
  from t2 h6 have g: "executing drained_pool = 0" by blast
  from h1 h2 h3 q h4(2) f h7 h6 g show ?thesis by blast
qed

text \<open>
  C3. In every state, \<open>clearQueue\<close> returns the length of the queue, leaves the queue empty
  and the workers (with the jobs they are executing) and the flags as they were, and
  subtracts the returned number from \<open>m_pending_jobs\<close>. When the counter is at least the
  length of the queue and within the range of \<open>ssize_t\<close>, the value of \<open>pendingJobs()\<close>
  goes down by exactly the number returned. The counter is at least the length of the queue
  in every state a run reaches from the constructor (lemmas \<open>pending_bound_ctor\<close> and
  \<open>pending_bound_exec\<close>).
\<close>

theorem C3_clearQueue:
  "fst (clearQueue s) = length (m_job_queue s) \<and>
   m_job_queue (snd (clearQueue s)) = [] \<and>
   queuedJobs (snd (clearQueue s)) = 0 \<and>
   m_worker_threads (snd (clearQueue s)) = m_worker_threads s \<and>
   executing (snd (clearQueue s)) = executing s \<and>
   m_stopped (snd (clearQueue s)) = m_stopped s \<and>
   m_waiting (snd (clearQueue s)) = m_waiting s \<and>
   m_counter_cv (snd (clearQueue s)) = m_counter_cv s \<and>
   m_pending_jobs (snd (clearQueue s)) = m_pending_jobs s - int (fst (clearQueue s)) \<and>
   (int (length (m_job_queue s)) \<le> m_pending_jobs s \<and> m_pending_jobs s < 2 ^ 63 \<longrightarrow>
      pendingJobs (snd (clearQueue s)) + fst (clearQueue s) = pendingJobs s)"
proof -
  have "clearQueue s = (length (m_job_queue s),
      s\<lparr> m_pending_jobs := m_pending_jobs s - int (length (m_job_queue s)), m_job_queue := [] \<rparr>)"
    by (simp add: clearQueue_def Let_def)
  then have "fst (clearQueue s) = length (m_job_queue s)"
    "m_job_queue (snd (clearQueue s)) = []"
    "queuedJobs (snd (clearQueue s)) = 0"
    "m_worker_threads (snd (clearQueue s)) = m_worker_threads s"
    "executing (snd (clearQueue s)) = executing s"
    "m_stopped (snd (clearQueue s)) = m_stopped s"
    "m_waiting (snd (clearQueue s)) = m_waiting s"
    "m_counter_cv (snd (clearQueue s)) = m_counter_cv s"
    "m_pending_jobs (snd (clearQueue s)) = m_pending_jobs s - int (fst (clearQueue s))"
    by (simp_all add: queuedJobs_def executing_def)
  with clearQueue_pendingJobs [of s] show ?thesis by blast
qed

theorem C3_clearQueue_witness:
  "int (length (m_job_queue busy_pool)) \<le> m_pending_jobs busy_pool \<and>
   m_pending_jobs busy_pool < 2 ^ 63 \<and>
   fst (clearQueue busy_pool) = 2 \<and>
   pendingJobs busy_pool = 3 \<and>
   pendingJobs (snd (clearQueue busy_pool)) = 1 \<and>
   m_worker_threads (snd (clearQueue busy_pool)) = [Running 5, Blocked]"
proof -
  have h: "int (length (m_job_queue busy_pool)) \<le> m_pending_jobs busy_pool \<and>
           m_pending_jobs busy_pool < 2 ^ 63"
    by (simp add: busy_pool_def)
  have p: "pendingJobs busy_pool = 3"
    by (simp add: busy_pool_def pendingJobs_def to_size_t_def)
  have q: "m_job_queue busy_pool = [7, 8]" "m_worker_threads busy_pool = [Running 5, Blocked]"
    by (simp_all add: busy_pool_def)
  from C3_clearQueue [of busy_pool] h p q show ?thesis by simp
qed

text \<open>
  C4. \<open>wait()\<close> is meant to block its caller until the counter reaches 0, and a worker that
  finishes the last pending job does wake the caller. \<open>clearQueue()\<close> does not. In a pool
  that was not started, job 1 is added and a thread calls \<open>wait()\<close>: the counter is 1, so it
  sets the waiter flag and sleeps on \<open>m_counter_cv\<close>. \<open>clearQueue()\<close> then brings the counter
  to 0 and notifies nobody: \<open>pendingJobs()\<close> returns 0 and the caller is still asleep, with no
  step of its own to take. When instead the pool is started and a worker runs job 1 to its
  end, the caller is woken and returns. (Lemma \<open>wait_enter_resume\<close> has what the body of
  \<open>wait()\<close> does: return at once at 0, sleep otherwise, return after a wake-up exactly when
  the counter reads 0, and no change to the state flag, queue, counter or workers. Lemma
  \<open>blocked_waiter_step\<close> has which steps wake a sleeping caller: a worker finishing the last
  pending job while the waiter flag is set, or a wake-up without notification.)
\<close>

theorem C4_clearQueue_leaves_waiter_asleep:
  "map_option waiting_view (exec 4 [AddJob 1 0, Wait] (ThreadPool_ctor 4 False 0)) =
     Some (1, 1, True, [WBlocked]) \<and>
   map_option waiting_view (exec 4 [AddJob 1 0, Wait, ClearQueue] (ThreadPool_ctor 4 False 0)) =
     Some (0, 0, True, [WBlocked]) \<and>
   exec 4 [AddJob 1 0, Wait, ClearQueue, Resume 0] (ThreadPool_ctor 4 False 0) = None \<and>
   map_option waiting_view
     (exec 4 [AddJob 1 0, Wait, Start 1, Acquire 0, Finish 0 0, Resume 0]
        (ThreadPool_ctor 4 False 0)) =
     Some (0, 0, False, [WReturned])"
  by code_simp

text \<open>
  C5. \<open>addJob\<close> is defined in every state, running or stopped: it appends the job at the
  tail of the queue (so two calls leave their jobs in the order of the calls), adds one to
  the counter, leaves the flags alone, and wakes one sleeping worker if there is one and
  none otherwise. A worker that dequeues takes the job at the head, and whenever any step
  makes a worker begin a job, that step is this worker's dequeue and the job was the head
  of the queue.
\<close>

theorem C5_addJob_appends_worker_takes_head:
  "m_job_queue (addJob k j s) = m_job_queue s @ [j] \<and>
   m_job_queue (addJob k' j' (addJob k j s)) = m_job_queue s @ [j, j'] \<and>
   m_pending_jobs (addJob k j s) = m_pending_jobs s + 1 \<and>
   m_stopped (addJob k j s) = m_stopped s \<and>
   m_waiting (addJob k j s) = m_waiting s \<and>
   m_counter_cv (addJob k j s) = m_counter_cv s \<and>
   (Blocked \<notin> set (m_worker_threads s) \<and>
      m_worker_threads (addJob k j s) = m_worker_threads s \<or>
    (\<exists>i<length (m_worker_threads s).
       m_worker_threads s ! i = Blocked \<and>
       m_worker_threads (addJob k j s) = (m_worker_threads s)[i := LoopTop])) \<and>
   (\<not> m_stopped s \<and> m_job_queue s \<noteq> [] \<and> worker_acquire i s = Some s' \<longrightarrow>
      m_worker_threads s' = (m_worker_threads s)[i := Running (hd (m_job_queue s))] \<and>
      m_job_queue s' = tl (m_job_queue s)) \<and>
   (step hw a s = Some s' \<and> w < length (m_worker_threads s') \<and>
    m_worker_threads s' ! w = Running x \<and>
    \<not> (w < length (m_worker_threads s) \<and> m_worker_threads s ! w = Running x) \<longrightarrow>
      a = Acquire w \<and> m_job_queue s \<noteq> [] \<and> x = hd (m_job_queue s) \<and>
      m_job_queue s' = tl (m_job_queue s))"
proof -
  have a: "m_job_queue (addJob k j s) = m_job_queue s @ [j]"
    "m_job_queue (addJob k' j' (addJob k j s)) = m_job_queue s @ [j, j']"
    "m_pending_jobs (addJob k j s) = m_pending_jobs s + 1"
    "m_stopped (addJob k j s) = m_stopped s"
    "m_waiting (addJob k j s) = m_waiting s"
    "m_counter_cv (addJob k j s) = m_counter_cv s"
    by (simp_all add: addJob_def)
  have ws: "m_worker_threads (addJob k j s) = notify_one Blocked LoopTop k (m_worker_threads s)"
    by (simp add: addJob_def)
  have b: "Blocked \<notin> set (m_worker_threads s) \<and>
      m_worker_threads (addJob k j s) = m_worker_threads s \<or>
    (\<exists>i<length (m_worker_threads s).
       m_worker_threads s ! i = Blocked \<and>
       m_worker_threads (addJob k j s) = (m_worker_threads s)[i := LoopTop])"
    unfolding ws using notify_one_cases [of Blocked LoopTop k "m_worker_threads s"] by blast
  have c: "m_worker_threads s' = (m_worker_threads s)[i := Running (hd (m_job_queue s))] \<and>
      m_job_queue s' = tl (m_job_queue s)"
    if "\<not> m_stopped s" "m_job_queue s \<noteq> []" "worker_acquire i s = Some s'"
    using acquire_running [OF that] by simp
  have d: "a = Acquire w \<and> m_job_queue s \<noteq> [] \<and> x = hd (m_job_queue s) \<and>
      m_job_queue s' = tl (m_job_queue s)"
    if "step hw a s = Some s'" "w < length (m_worker_threads s')"
      "m_worker_threads s' ! w = Running x"
      "\<not> (w < length (m_worker_threads s) \<and> m_worker_threads s ! w = Running x)"
    using running_started [OF that(1,2,3)] that(4) by blast
  from a b c d show ?thesis by blast
qed

theorem C5_addJob_appends_worker_takes_head_witness:
  "\<not> m_stopped busy_pool \<and> m_job_queue busy_pool = [7, 8] \<and>
   m_job_queue (addJob 0 9 busy_pool) = [7, 8, 9] \<and>
   worker_acquire 1 (addJob 0 9 busy_pool) =
     Some (addJob 0 9 busy_pool\<lparr> m_job_queue := [8, 9],
                                    m_worker_threads := [Running 5, Running 7] \<rparr>) \<and>
   step 1 (Acquire 1) (addJob 0 9 busy_pool) =
     Some (addJob 0 9 busy_pool\<lparr> m_job_queue := [8, 9],
                                    m_worker_threads := [Running 5, Running 7] \<rparr>) \<and>
   m_worker_threads (addJob 0 9 busy_pool) = [Running 5, LoopTop] \<and>
   hd (m_job_queue (addJob 0 9 busy_pool)) = 7"
proof -
  let ?s = "addJob 0 9 busy_pool"
  let ?s' = "?s\<lparr> m_job_queue := [8, 9], m_worker_threads := [Running 5, Running 7] \<rparr>"
  have bi: "blocked_ids Blocked [Running 5, Blocked] = [1]"
    by code_simp
  have w: "m_worker_threads ?s = [Running 5, LoopTop]"
    by (simp add: addJob_def busy_pool_def notify_one_def bi)
  have h0: "\<not> m_stopped busy_pool" "m_job_queue busy_pool = [7, 8]"
    by (simp_all add: busy_pool_def)
  note t = C5_addJob_appends_worker_takes_head [of 0 9 busy_pool 0 9 1 ?s' 1 "Acquire 1" 1 7]
  from t have "m_job_queue ?s = m_job_queue busy_pool @ [9]" by blast
  with h0 have q: "m_job_queue ?s = [7, 8, 9]" by simp
  have h1: "\<not> m_stopped ?s" by (simp add: addJob_def busy_pool_def)
  have h2: "worker_acquire 1 ?s = Some ?s'"
    by (simp add: worker_acquire_def w q h1)
  note u = C5_addJob_appends_worker_takes_head [of 0 9 ?s 0 9 1 ?s' 1 "Acquire 1" 1 7]
  have h3: "step 1 (Acquire 1) ?s = Some ?s'" using h2 by simp
  have h4: "1 < length (m_worker_threads ?s')" "m_worker_threads ?s' ! 1 = Running 7"
    "\<not> (1 < length (m_worker_threads ?s) \<and> m_worker_threads ?s ! 1 = Running 7)"
    by (simp_all add: w)
  from u h3 h4 have hd: "7 = hd (m_job_queue ?s)" by blast
  from h0 q h2 h3 w hd [symmetric] show ?thesis by blast
qed

text \<open>
  C6. \<open>start\<close> returns \<open>false\<close> exactly when the pool is running, and leaves the state as
  it was exactly then; \<open>stop\<close> returns \<open>false\<close> (in its critical section, before any join)
  exactly when the pool is stopped, and leaves the state as it was exactly then. Both report
  the conflict through the value returned.
\<close>

theorem C6_start_stop_state_conflict:
  "(\<not> fst (start hw n s) \<longleftrightarrow> \<not> m_stopped s) \<and>
   (snd (start hw n s) = s \<longleftrightarrow> \<not> m_stopped s) \<and>
   (\<not> fst (stop_locked c s) \<longleftrightarrow> m_stopped s) \<and>
   (snd (stop_locked c s) = s \<longleftrightarrow> m_stopped s)"
proof -
  have a: "\<not> fst (start hw n s) \<longleftrightarrow> \<not> m_stopped s"
    by (simp add: start_def Let_def)
  have b: "snd (start hw n s) = s \<longleftrightarrow> \<not> m_stopped s"
  proof
    assume "snd (start hw n s) = s"
    then have "m_stopped (snd (start hw n s)) = m_stopped s" by simp
    then show "\<not> m_stopped s" by (simp add: start_def Let_def split: if_splits)
  next
    assume "\<not> m_stopped s"
    then show "snd (start hw n s) = s" by (simp add: start_def)
  qed
  have c: "\<not> fst (stop_locked c s) \<longleftrightarrow> m_stopped s"
    by (simp add: stop_locked_def)
  have d: "snd (stop_locked c s) = s \<longleftrightarrow> m_stopped s"
  proof
    assume "snd (stop_locked c s) = s"
    then have "m_stopped (snd (stop_locked c s)) = m_stopped s" by simp
    then show "m_stopped s" by (simp add: stop_locked_def split: if_splits)
  next
    assume "m_stopped s"
    then show "snd (stop_locked c s) = s" by (simp add: stop_locked_def)
  qed
  from a b c d show ?thesis by blast
qed

text \<open>
  C7. On a stopped pool, \<open>start(n)\<close> returns \<open>true\<close>, sets the state to running and
  appends \<open>n\<close> worker threads when \<open>n > 0\<close>, and as many as \<open>hardware_concurrency()\<close>
  reports when \<open>n = 0\<close>; every new thread is at the top of the worker loop and can take its
  first step.
\<close>

theorem C7_start_spawns_workers:
  assumes "m_stopped s"
  shows "fst (start hw n s) \<and>
         snd (start hw n s) =
           s\<lparr> m_stopped := False,
              m_worker_threads :=
                m_worker_threads s @ replicate (if n = 0 then hw else n) LoopTop \<rparr> \<and>
         length (m_worker_threads (snd (start hw n s))) =
           length (m_worker_threads s) + (if n = 0 then hw else n) \<and>
         (\<forall>i. length (m_worker_threads s) \<le> i \<and>
               i < length (m_worker_threads (snd (start hw n s))) \<longrightarrow>
               m_worker_threads (snd (start hw n s)) ! i = LoopTop \<and>
               worker_acquire i (snd (start hw n s)) \<noteq> None)"
proof -
  let ?m = "if n = 0 then hw else n"
  let ?s' = "snd (start hw n s)"
  have ws: "m_worker_threads ?s' = m_worker_threads s @ replicate ?m LoopTop"
    using assms by (simp add: start_stopped)
  have new: "m_worker_threads ?s' ! i = LoopTop \<and> worker_acquire i ?s' \<noteq> None"
    if "length (m_worker_threads s) \<le> i" "i < length (m_worker_threads ?s')" for i
  proof -
    from that have "i - length (m_worker_threads s) < ?m" by (simp add: ws)
    with that have "m_worker_threads ?s' ! i = LoopTop"
      by (simp only: ws nth_append) simp
    with that show ?thesis by (simp add: worker_acquire_def)
  qed
  from assms ws new show ?thesis
    by (simp add: start_stopped)
qed

theorem C7_start_spawns_workers_witness:
  "m_stopped initial \<and>
   snd (start 8 3 initial) = initial\<lparr> m_stopped := False,
                                       m_worker_threads := [LoopTop, LoopTop, LoopTop] \<rparr> \<and>
   length (m_worker_threads (snd (start 8 0 initial))) = 8 \<and>
   worker_acquire 2 (snd (start 8 3 initial)) \<noteq> None"
proof -
  have h: "m_stopped initial" by (simp add: initial_def)
  have r: "replicate 3 LoopTop = [LoopTop, LoopTop, LoopTop]" by (simp add: numeral_3_eq_3)
  have e: "m_worker_threads initial = []" by (simp add: initial_def)
  from C7_start_spawns_workers [OF h, of 8 3] C7_start_spawns_workers [OF h, of 8 0] h r e
  show ?thesis by (simp add: worker_acquire_def)
qed

text \<open>
  C8, as stated, fails. Two threads call \<open>wait()\<close> while the only worker executes the only
  pending job. When the worker finishes, the counter goes to 0 and \<open>notify_one\<close> wakes one
  of the two, whichever the scheduler picks; the other is still asleep on \<open>m_counter_cv\<close>.
  It stays so after the woken thread has returned, which also clears the waiter flag.
\<close>

theorem C8_two_waiters_one_woken:
  "exec 1 [AddJob 1 0, Acquire 0, Wait, Wait] (ThreadPool_ctor 1 True 1) = Some two_waiters \<and>
   worker_finish 0 0 two_waiters =
     Some \<lparr> m_stopped = False, m_waiting = True, m_job_queue = [],
            m_worker_threads = [LoopTop], m_pending_jobs = 0,
            m_counter_cv = [WWoken, WBlocked], joining = False \<rparr> \<and>
   worker_finish 1 0 two_waiters =
     Some \<lparr> m_stopped = False, m_waiting = True, m_job_queue = [],
            m_worker_threads = [LoopTop], m_pending_jobs = 0,
            m_counter_cv = [WBlocked, WWoken], joining = False \<rparr> \<and>
   exec 1 [AddJob 1 0, Acquire 0, Wait, Wait, Finish 0 0, Resume 0] (ThreadPool_ctor 1 True 1) =
     Some \<lparr> m_stopped = False, m_waiting = False, m_job_queue = [],
            m_worker_threads = [LoopTop], m_pending_jobs = 0,
            m_counter_cv = [WReturned, WBlocked], joining = False \<rparr>"
  by code_simp

text \<open>
  C8, amended. When a worker finishes a job, and this brings the counter to 0 while the
  waiter flag is set and some thread sleeps in \<open>wait()\<close>, exactly one sleeping thread is
  woken by \<open>notify_one\<close> and every other thread stays as it was, the sleeping ones asleep.
  In the state this step produces the counter is 0, so the woken thread, if it evaluates
  the predicate in that state, returns from \<open>wait()\<close> and clears the waiter flag. In
  every other case the finishing worker leaves all waiters as they were.
\<close>

theorem C8_finish_wakes_one_waiter:
  assumes "worker_finish k i s = Some s'"
  shows "if m_pending_jobs s' = 0 \<and> m_waiting s \<and> WBlocked \<in> set (m_counter_cv s)
         then \<exists>t<length (m_counter_cv s).
                m_counter_cv s ! t = WBlocked \<and>
                m_counter_cv s' = (m_counter_cv s)[t := WWoken] \<and>
                wait_resume t s' =
                  Some (True, s'\<lparr> m_waiting := False,
                                    m_counter_cv := (m_counter_cv s')[t := WReturned] \<rparr>)
         else m_counter_cv s' = m_counter_cv s"
proof -
  from assms have p: "m_pending_jobs s' = m_pending_jobs s - 1"
    and cv: "m_counter_cv s' =
               (if m_pending_jobs s - 1 = 0 \<and> m_waiting s
                then notify_one WBlocked WWoken k (m_counter_cv s) else m_counter_cv s)"
    by (simp_all add: worker_finish_Some)
  show ?thesis
  proof (cases "m_pending_jobs s' = 0 \<and> m_waiting s")
    case False
    with p cv show ?thesis by auto
  next
    case True
    with p cv have n: "m_counter_cv s' = notify_one WBlocked WWoken k (m_counter_cv s)"
      by simp
    show ?thesis
    proof (cases "WBlocked \<in> set (m_counter_cv s)")
      case False
      with notify_one_cases [of WBlocked WWoken k "m_counter_cv s"] n
      have "m_counter_cv s' = m_counter_cv s" by (auto dest: nth_mem)
      with False show ?thesis by simp
    next
      case b: True
      with notify_one_cases [of WBlocked WWoken k "m_counter_cv s"] n
      obtain t where t: "t < length (m_counter_cv s)" "m_counter_cv s ! t = WBlocked"
        "m_counter_cv s' = (m_counter_cv s)[t := WWoken]"
        by auto
      from t True have "wait_resume t s' =
                  Some (True, s'\<lparr> m_waiting := False,
                                    m_counter_cv := (m_counter_cv s')[t := WReturned] \<rparr>)"
        by (simp add: wait_resume_def)
      with t True b show ?thesis by auto
    qed
  qed
qed

theorem C8_finish_wakes_one_waiter_witness:
  "worker_finish 0 0 two_waiters \<noteq> None \<and>
   m_pending_jobs (the (worker_finish 0 0 two_waiters)) = 0 \<and> m_waiting two_waiters \<and>
   WBlocked \<in> set (m_counter_cv two_waiters) \<and>
   (\<exists>t<2. m_counter_cv (the (worker_finish 0 0 two_waiters)) = [WBlocked, WBlocked][t := WWoken])"
proof -
  let ?s' = "the (worker_finish 0 0 two_waiters)"
  have cv: "m_counter_cv two_waiters = [WBlocked, WBlocked]" "m_waiting two_waiters"
    by (simp_all add: two_waiters_def)
  have f: "worker_finish 0 0 two_waiters = Some ?s'"
    by (simp add: worker_finish_def two_waiters_def)
  have p: "m_pending_jobs ?s' = 0"
    by (simp add: worker_finish_def two_waiters_def)
  have b: "WBlocked \<in> set (m_counter_cv two_waiters)" by (simp add: cv)
  from C8_finish_wakes_one_waiter [OF f] p cv(2) b
  have "\<exists>t<length (m_counter_cv two_waiters).
          m_counter_cv ?s' = (m_counter_cv two_waiters)[t := WWoken]"
    by auto
  then have "\<exists>t<length [WBlocked, WBlocked].
          m_counter_cv ?s' = [WBlocked, WBlocked][t := WWoken]"
    by (simp only: cv(1))
  then have e: "\<exists>t<2. m_counter_cv ?s' = [WBlocked, WBlocked][t := WWoken]"
    by (simp only: length_Cons list.size(3)) (simp only: numeral_2_eq_2)
  have g: "worker_finish 0 0 two_waiters \<noteq> None" using f by blast
  from g p cv(2) b e show ?thesis by blast
qed



text \<open>
  C10. On a running pool the critical section of \<open>stop(false)\<close> sets the state to stopped,
  wakes the sleeping workers, and leaves the queue and the counter as they were; so does
  the loop of joins. A worker that takes its turn in a stopped pool exits and does not
  dequeue, whatever the queue holds. While the pool is stopped no step starts a job, the
  queue only grows by \<open>addJob\<close> or is emptied by \<open>clearQueue\<close>, and only a successful
  \<open>start\<close> ends the stopped state. In the running pool a worker at the top of its loop
  dequeues the head of a non-empty queue.
\<close>

theorem C10_stop_keeps_queue:
  "(\<not> m_stopped s \<longrightarrow>
      stop_locked False s =
        (True, s\<lparr> m_stopped := True,
                   m_worker_threads := notify_all Blocked LoopTop (m_worker_threads s),
                   joining := True \<rparr>) \<and>
      m_job_queue (snd (stop_locked False s)) = m_job_queue s \<and>
      m_pending_jobs (snd (stop_locked False s)) = m_pending_jobs s) \<and>
   (stop_join s = Some s' \<longrightarrow>
      m_job_queue s' = m_job_queue s \<and> m_pending_jobs s' = m_pending_jobs s \<and>
      m_stopped s' = m_stopped s) \<and>
   (m_stopped s \<and> worker_acquire i s = Some s' \<longrightarrow>
      s' = s\<lparr> m_worker_threads := (m_worker_threads s)[i := Exited] \<rparr>) \<and>
   (m_stopped s \<and> step hw a s = Some s' \<longrightarrow>
      (w < length (m_worker_threads s') \<and> m_worker_threads s' ! w = Running j \<longrightarrow>
         w < length (m_worker_threads s) \<and> m_worker_threads s ! w = Running j) \<and>
      (m_job_queue s' = m_job_queue s \<or>
       (\<exists>x k. a = AddJob x k \<and> m_job_queue s' = m_job_queue s @ [x]) \<or>
       a = ClearQueue \<and> m_job_queue s' = []) \<and>
      (m_stopped s' \<or> (\<exists>n. a = Start n \<and> fst (start hw n s)))) \<and>
   (\<not> m_stopped s \<and> m_job_queue s \<noteq> [] \<and>
    i < length (m_worker_threads s) \<and> m_worker_threads s ! i = LoopTop \<longrightarrow>
      worker_acquire i s =
        Some (s\<lparr> m_job_queue := tl (m_job_queue s),
                   m_worker_threads :=
                     (m_worker_threads s)[i := Running (hd (m_job_queue s))] \<rparr>))"
proof -
  have a: "stop_locked False s =
        (True, s\<lparr> m_stopped := True,
                   m_worker_threads := notify_all Blocked LoopTop (m_worker_threads s),
                   joining := True \<rparr>)"
    "m_job_queue (snd (stop_locked False s)) = m_job_queue s"
    "m_pending_jobs (snd (stop_locked False s)) = m_pending_jobs s"
    if "\<not> m_stopped s"
    using that by (simp_all add: stop_locked_def)
  have b: "m_job_queue s' = m_job_queue s \<and> m_pending_jobs s' = m_pending_jobs s \<and>
      m_stopped s' = m_stopped s"
    if "stop_join s = Some s'"
    using that by (simp add: stop_join_Some)
  have c: "s' = s\<lparr> m_worker_threads := (m_worker_threads s)[i := Exited] \<rparr>"
    if "m_stopped s" "worker_acquire i s = Some s'"
    using that by (rule acquire_stopped)
  have d1: "w < length (m_worker_threads s) \<and> m_worker_threads s ! w = Running j"
    if "m_stopped s" "step hw a s = Some s'" "w < length (m_worker_threads s')"
      "m_worker_threads s' ! w = Running j"
    using running_started [OF that(2,3,4)] that(1) by blast
  have d2: "m_job_queue s' = m_job_queue s \<or>
       (\<exists>x k. a = AddJob x k \<and> m_job_queue s' = m_job_queue s @ [x]) \<or>
       a = ClearQueue \<and> m_job_queue s' = []"
    if "m_stopped s" "step hw a s = Some s'"
    using that by (rule stopped_queue_step)
  have d3: "m_stopped s' \<or> (\<exists>n. a = Start n \<and> fst (start hw n s))"
    if "m_stopped s" "step hw a s = Some s'"
    using restart_only_by_start [OF that] by blast
  have e: "worker_acquire i s =
        Some (s\<lparr> m_job_queue := tl (m_job_queue s),
                   m_worker_threads :=
                     (m_worker_threads s)[i := Running (hd (m_job_queue s))] \<rparr>)"
    if "\<not> m_stopped s" "m_job_queue s \<noteq> []"
      "i < length (m_worker_threads s)" "m_worker_threads s ! i = LoopTop"
    using that by (simp add: worker_acquire_def)
  show ?thesis
  proof (intro conjI impI)
  qed (use a b c d1 d2 d3 e in \<open>blast+\<close>)
qed

theorem C10_stop_keeps_queue_witness:
  "\<not> m_stopped busy_pool \<and>
   m_job_queue (snd (stop_locked False busy_pool)) = [7, 8] \<and>
   m_pending_jobs (snd (stop_locked False busy_pool)) = 3 \<and>
   m_stopped stopping_pool \<and> m_job_queue stopping_pool = [8] \<and>
   worker_acquire 0 stopping_pool =
     Some (stopping_pool\<lparr> m_worker_threads := [Exited, Running 5] \<rparr>) \<and>
   stop_join drained_pool =
     Some (drained_pool\<lparr> m_worker_threads := [], joining := False \<rparr>) \<and>
   m_job_queue (drained_pool\<lparr> m_worker_threads := [], joining := False \<rparr>) = [8] \<and>
   step 1 (Start 1) (drained_pool\<lparr> m_worker_threads := [], joining := False \<rparr>) =
     Some restarted_pool \<and>
   \<not> m_stopped restarted_pool \<and>
   worker_acquire 0 restarted_pool =
     Some (restarted_pool\<lparr> m_job_queue := [], m_worker_threads := [Running 8] \<rparr>)"
proof -
  let ?a' = "stopping_pool\<lparr> m_worker_threads := [Exited, Running 5] \<rparr>"
  let ?d' = "drained_pool\<lparr> m_worker_threads := [], joining := False \<rparr>"
  let ?r' = "restarted_pool\<lparr> m_job_queue := [], m_worker_threads := [Running 8] \<rparr>"
  have b: "\<not> m_stopped busy_pool" "m_job_queue busy_pool = [7, 8]"
    "m_pending_jobs busy_pool = 3"
    by (simp_all add: busy_pool_def)
  have s: "m_stopped stopping_pool" "m_job_queue stopping_pool = [8]"
    "m_worker_threads stopping_pool = [LoopTop, Running 5]"
    by (simp_all add: stopping_pool_def)
  have sa: "worker_acquire 0 stopping_pool = Some ?a'"
    by (simp add: worker_acquire_def s)
  have d: "stop_join drained_pool = Some ?d'" "m_job_queue drained_pool = [8]"
    "m_stopped ?d'" "\<not> joining ?d'"
    by (simp_all add: stop_join_def drained_pool_def)
  have r: "\<not> m_stopped restarted_pool" "m_job_queue restarted_pool = [8]"
    "m_worker_threads restarted_pool = [LoopTop]"
    by (simp_all add: restarted_pool_def start_stopped drained_pool_def)
  have st: "step 1 (Start 1) ?d' = Some restarted_pool"
    using d(4) by (simp add: restarted_pool_def)
  note t1 = C10_stop_keeps_queue [of busy_pool ?d' 0 1 ClearQueue 0 0]
  from t1 b have x1: "m_job_queue (snd (stop_locked False busy_pool)) = [7, 8]"
    "m_pending_jobs (snd (stop_locked False busy_pool)) = 3"
    by simp_all
  note t2 = C10_stop_keeps_queue [of stopping_pool ?a' 0 1 "Acquire 0" 1 5]
  from t2 s(1) sa have x2: "?a' = stopping_pool\<lparr> m_worker_threads :=
      (m_worker_threads stopping_pool)[0 := Exited] \<rparr>"
    by blast
  note t3 = C10_stop_keeps_queue [of drained_pool ?d' 0 1 Join 0 0]
  from t3 d(1) have x3: "m_job_queue ?d' = m_job_queue drained_pool" by blast
  note t4 = C10_stop_keeps_queue [of ?d' restarted_pool 0 1 "Start 1" 0 0]
  from t4 d(3) st r(1) have x4: "\<exists>n. Start 1 = Start n \<and> fst (start 1 n ?d')" by blast
  note t5 = C10_stop_keeps_queue [of restarted_pool ?r' 0 1 "Start 1" 0 0]
  from r have "\<not> m_stopped restarted_pool \<and> m_job_queue restarted_pool \<noteq> [] \<and>
    0 < length (m_worker_threads restarted_pool) \<and> m_worker_threads restarted_pool ! 0 = LoopTop"
    by simp
  with t5 have "worker_acquire 0 restarted_pool =
        Some (restarted_pool\<lparr> m_job_queue := tl (m_job_queue restarted_pool),
                   m_worker_threads :=
                     (m_worker_threads restarted_pool)[0 := Running (hd (m_job_queue restarted_pool))] \<rparr>)"
    by blast
  then have x5: "worker_acquire 0 restarted_pool = Some ?r'"
    by (simp add: r)
  from x3 d(2) have x3': "m_job_queue ?d' = [8]" by simp
  from b(1) x1 s(1,2) sa d(1) x3' st r(1) x5 x2 x4 show ?thesis by blast
qed

end
